theory Spec2Isabelle
  imports
    Complex_Main
    "HOL-Library.Char_ord"
    "HOL-Library.List_Lexorder"
    "HOL-Library.Sublist"
    "HOL-Library.Multiset"
begin

section \<open>Frames to video: a shallow embedding of the two KITTI scripts\<close>

text \<open>
  The development embeds \<^verbatim>\<open>frames_to_video.py\<close> (function \<^verbatim>\<open>create_video\<close>) and
  \<^verbatim>\<open>process_kitti_drives.py\<close> (function \<^verbatim>\<open>process_all_drives\<close>).
  Python strings are \<open>string\<close> (file names are taken to be ASCII, so the order of
  \<open>HOL-Library.Char_ord\<close> lifted to lists by \<open>HOL-Library.List_Lexorder\<close> is Python's
  string order). Python's unbounded integers that count or number things are \<open>nat\<close>.
  The frame rate is only passed through, never computed with; it is a \<open>real\<close>.
\<close>

subsection \<open>Path and string helpers of the Python library\<close>

text \<open>\<^verbatim>\<open>os.path.basename(p)\<close> on POSIX: everything after the last slash.\<close>

definition basename :: "string \<Rightarrow> string" where
  "basename p = rev (takeWhile (\<lambda>c. c \<noteq> CHR ''/'') (rev p))"

text \<open>
  \<^verbatim>\<open>os.path.join(a, b)\<close> on POSIX: an absolute \<open>b\<close> replaces \<open>a\<close>; otherwise
  one slash separates them unless \<open>a\<close> is empty or already ends with a slash.
\<close>

definition path_join :: "string \<Rightarrow> string \<Rightarrow> string" where
  "path_join a b =
     (if b \<noteq> [] \<and> hd b = CHR ''/'' then b
      else if a = [] \<or> last a = CHR ''/'' then a @ b
      else a @ ''/'' @ b)"

text \<open>
  \<^verbatim>\<open>s.replace(old, new)\<close>: scanning from the left, every non-overlapping occurrence
  of \<open>old\<close> is replaced. For an empty \<open>old\<close> Python puts \<open>new\<close> before every
  character and at the end.
\<close>

function py_replace :: "string \<Rightarrow> string \<Rightarrow> string \<Rightarrow> string" where
  "py_replace old new s =
     (if old = [] then concat (map (\<lambda>c. new @ [c]) s) @ new
      else if s = [] then []
      else if prefix old s then new @ py_replace old new (drop (length old) s)
      else hd s # py_replace old new (tl s))"
  by pat_completeness auto
termination
  by (relation "measure (\<lambda>(old, new, s). length s)") auto

declare py_replace.simps [simp del]

text \<open>The character class \<^verbatim>\<open>\d\<close> on ASCII text.\<close>

definition is_digit :: "char \<Rightarrow> bool" where
  "is_digit c = (c \<in> set ''0123456789'')"

text \<open>
  \<^verbatim>\<open>re.search(r'\d+', s)\<close>: the leftmost maximal run of digits; \<open>None\<close> when
  the string has no digit (the match object is \<^verbatim>\<open>None\<close>).
\<close>

definition re_search_digits :: "string \<Rightarrow> string option" where
  "re_search_digits s =
     (let t = dropWhile (\<lambda>c. \<not> is_digit c) s
      in if t = [] then None else Some (takeWhile is_digit t))"

text \<open>\<^verbatim>\<open>int(ds)\<close> on a string of decimal digits.\<close>

definition py_int :: "string \<Rightarrow> nat" where
  "py_int ds = foldl (\<lambda>n c. 10 * n + (of_char c - 48)) 0 ds"

subsection \<open>Ordering the frame files (\<^verbatim>\<open>frames_to_video.py\<close>, lines 37 to 43)\<close>

text \<open>
  The sort key \<^verbatim>\<open>lambda f: int(re.search(r'\d+', os.path.basename(f)).group())\<close>.
  \<open>None\<close> stands for the \<^verbatim>\<open>AttributeError\<close> that \<^verbatim>\<open>.group()\<close> raises on a
  failed search.
\<close>

definition frame_number :: "string \<Rightarrow> nat option" where
  "frame_number f = map_option py_int (re_search_digits (basename f))"

text \<open>
  \<^verbatim>\<open>list.sort(key=...)\<close> computes every key before it moves anything: the
  \<^verbatim>\<open>try\<close> block succeeds exactly when no key raises.
\<close>

definition numeric_keys_ok :: "string list \<Rightarrow> bool" where
  "numeric_keys_ok fs = list_all (\<lambda>f. frame_number f \<noteq> None) fs"

text \<open>
  The \<^verbatim>\<open>try\<close>/\<^verbatim>\<open>except\<close>: a stable sort on the numeric key, or, when a key
  raised, \<^verbatim>\<open>image_files.sort()\<close> on the path strings themselves.
\<close>

definition sort_image_files :: "string list \<Rightarrow> string list" where
  "sort_image_files fs =
     (if numeric_keys_ok fs then sort_key (\<lambda>f. the (frame_number f)) fs
      else sort fs)"

subsection \<open>The world the scripts act on\<close>

text \<open>A decoded image (a numpy array): \<^verbatim>\<open>frame.shape\<close> is (rows, cols, channels).\<close>

record ndarray =
  rows :: nat
  cols :: nat
  channels :: nat
  pixels :: "nat list"

text \<open>
  A video file on disk. \<open>finalized\<close> turns true when its writer is released; a file
  whose writer was never released is a truncated container.
\<close>

record video =
  codec :: string
  rate :: real
  frame_size :: "nat \<times> nat"
  frames :: "ndarray list"
  finalized :: bool

text \<open>
  One constructor for each \<^verbatim>\<open>print\<close> and \<^verbatim>\<open>tqdm.write\<close> of the two scripts, in
  the order of the source; the arguments are the values the format string inserts.
  The progress bars of \<^verbatim>\<open>tqdm\<close> go to the error stream and are left out.
\<close>

datatype message =
    StartingVideoCreation
  | InputFolder string
  | OutputVideo string
  | FrameRate real
  | ImageType string
  | NoImagesFound string string
  | FoundAndSorted nat
  | SortFallbackWarning
  | ZeroPaddedHint
  | CouldNotReadFirst string
  | VideoDimensions nat nat
  | WritingFrames
  | DifferentResolution string
  | ExpectedButGot nat nat nat nat
  | Aborting
  | VideoCreationComplete
  | SuccessfullySaved string
  | StartingDriveProcessing
  | SearchingDrivesIn string
  | NoDrivesFound
  | FoundDrives nat
  | VideosSavedIn string
  | ProcessingDrive string
  | RgbFolderNotFound string
  | ExpectedAt string
  | AllDrivesProcessed

text \<open>The calls that change the file system, in the order they are made.\<close>

datatype call =
    VideoWriter string string real "nat \<times> nat"
  | WriteFrame ndarray
  | Release
  | Remove string
  | Makedirs string

datatype exn = AttributeError | FileNotFoundError | IndexError

record world =
  stdout :: "message list"
  calls :: "call list"
  files :: "string \<rightharpoonup> video"

text \<open>
  What the scripts only read: \<^verbatim>\<open>glob.glob\<close> (pattern to paths, in directory
  order), \<^verbatim>\<open>cv2.imread\<close> (\<open>None\<close> when the file cannot be decoded) and
  \<^verbatim>\<open>os.path.isdir\<close>.
\<close>

record env =
  glob :: "string \<Rightarrow> string list"
  imread :: "string \<Rightarrow> ndarray option"
  isdir :: "string \<Rightarrow> bool"

definition emit :: "message list \<Rightarrow> world \<Rightarrow> world" where
  "emit ms w = w\<lparr>stdout := stdout w @ ms\<rparr>"

text \<open>
  Modelled from the spec: \<^verbatim>\<open>cv2.VideoWriter\<close>, \<^verbatim>\<open>os.remove\<close> and \<^verbatim>\<open>os.makedirs\<close>
  are libraries outside the repository. The five definitions below follow section 6
  of the specification (the video encoder sink and the file system): opening a writer
  creates (or overwrites) the file, writing appends a frame to it, releasing closes
  it, \<^verbatim>\<open>os.remove\<close> deletes a file or raises \<^verbatim>\<open>FileNotFoundError\<close>, and
  \<^verbatim>\<open>os.makedirs\<close> with \<^verbatim>\<open>exist_ok=True\<close> only creates directories. Every call is
  also recorded in \<open>calls\<close>.
\<close>

definition video_writer_open :: "string \<Rightarrow> string \<Rightarrow> real \<Rightarrow> nat \<times> nat \<Rightarrow> world \<Rightarrow> world" where
  "video_writer_open path fourcc fps sz w =
     w\<lparr>calls := calls w @ [VideoWriter path fourcc fps sz],
       files := (files w)(path \<mapsto>
         \<lparr>codec = fourcc, rate = fps, frame_size = sz, frames = [], finalized = False\<rparr>)\<rparr>"

definition video_writer_write :: "string \<Rightarrow> ndarray \<Rightarrow> world \<Rightarrow> world" where
  "video_writer_write path frame w =
     w\<lparr>calls := calls w @ [WriteFrame frame],
       files := (case files w path of
                  None \<Rightarrow> files w
                | Some v \<Rightarrow> (files w)(path \<mapsto> v\<lparr>frames := frames v @ [frame]\<rparr>))\<rparr>"

definition video_writer_release :: "string \<Rightarrow> world \<Rightarrow> world" where
  "video_writer_release path w =
     w\<lparr>calls := calls w @ [Release],
       files := (case files w path of
                  None \<Rightarrow> files w
                | Some v \<Rightarrow> (files w)(path \<mapsto> v\<lparr>finalized := True\<rparr>))\<rparr>"

definition os_remove :: "string \<Rightarrow> world \<Rightarrow> exn \<times> world + world" where
  "os_remove path w =
     (if files w path = None then Inl (FileNotFoundError, w)
      else Inr (w\<lparr>calls := calls w @ [Remove path], files := (files w)(path := None)\<rparr>))"

definition os_makedirs :: "string \<Rightarrow> world \<Rightarrow> world" where
  "os_makedirs path w = w\<lparr>calls := calls w @ [Makedirs path]\<rparr>"

subsection \<open>\<^verbatim>\<open>create_video\<close>\<close>

text \<open>
  How the frame loop ends: it runs off the end of the list, or its body executes
  \<^verbatim>\<open>return\<close>. An uncaught exception is \<open>Inl\<close>, with the world as it was left.
\<close>

datatype flow = Fallthrough | Returned

text \<open>
  Lines 65 to 77. \<^verbatim>\<open>frame.shape\<close> on the \<^verbatim>\<open>None\<close> that \<^verbatim>\<open>cv2.imread\<close> returns
  for an unreadable file raises \<^verbatim>\<open>AttributeError\<close>; the loop has no handler.
\<close>

fun write_frames ::
  "env \<Rightarrow> string \<Rightarrow> nat \<Rightarrow> nat \<Rightarrow> string list \<Rightarrow> world \<Rightarrow> exn \<times> world + flow \<times> world" where
  "write_frames e output_video_path height width [] w = Inr (Fallthrough, w)"
| "write_frames e output_video_path height width (image_path # rest) w =
     (case imread e image_path of
        None \<Rightarrow> Inl (AttributeError, w)
      | Some frame \<Rightarrow>
          if rows frame \<noteq> height \<or> cols frame \<noteq> width then
            (let w1 = emit [DifferentResolution (basename image_path),
                            ExpectedButGot width height (cols frame) (rows frame),
                            Aborting] w;
                 w2 = video_writer_release output_video_path w1
             in case os_remove output_video_path w2 of
                  Inl x \<Rightarrow> Inl x
                | Inr w3 \<Rightarrow> Inr (Returned, w3))
          else write_frames e output_video_path height width rest
                 (video_writer_write output_video_path frame w))"

text \<open>Lines 8 to 82. The function returns \<^verbatim>\<open>None\<close> on every path that returns.\<close>

definition create_video ::
  "env \<Rightarrow> string \<Rightarrow> string \<Rightarrow> real \<Rightarrow> string \<Rightarrow> world \<Rightarrow> exn \<times> world + world" where
  "create_video e image_folder output_video_path fps image_ext w =
     (let w1 = emit [StartingVideoCreation, InputFolder image_folder,
                     OutputVideo output_video_path, FrameRate fps, ImageType image_ext] w;
          search_pattern = path_join image_folder (''*.'' @ image_ext);
          image_files = glob e search_pattern
      in if image_files = [] then Inr (emit [NoImagesFound image_ext image_folder] w1)
         else
           (let sorted_files = sort_image_files image_files;
                w2 = emit (if numeric_keys_ok image_files
                           then [FoundAndSorted (length image_files)]
                           else [SortFallbackWarning, ZeroPaddedHint]) w1
            in case sorted_files of
                 [] \<Rightarrow> Inl (IndexError, w2)
               | first_path # _ \<Rightarrow>
                   (case imread e first_path of
                      None \<Rightarrow> Inr (emit [CouldNotReadFirst first_path] w2)
                    | Some first_frame \<Rightarrow>
                        (let height = rows first_frame;
                             width = cols first_frame;
                             w3 = emit [VideoDimensions width height] w2;
                             w4 = video_writer_open output_video_path ''mp4v'' fps (width, height) w3;
                             w5 = emit [WritingFrames] w4
                         in case write_frames e output_video_path height width sorted_files w5 of
                              Inl x \<Rightarrow> Inl x
                            | Inr (Returned, w6) \<Rightarrow> Inr w6
                            | Inr (Fallthrough, w6) \<Rightarrow>
                                Inr (emit [VideoCreationComplete, SuccessfullySaved output_video_path]
                                      (video_writer_release output_video_path w6))))))"

subsection \<open>\<^verbatim>\<open>process_all_drives\<close>\<close>

text \<open>Line 48: \<^verbatim>\<open>os.path.basename(drive_path).replace('_sync', '')\<close>.\<close>

definition drive_name_of :: "string \<Rightarrow> string" where
  "drive_name_of drive_path = py_replace ''_sync'' '''' (basename drive_path)"

text \<open>Lines 62 and 63.\<close>

definition output_video_path_of :: "string \<Rightarrow> string \<Rightarrow> string" where
  "output_video_path_of output_dir drive_path =
     path_join output_dir (drive_name_of drive_path @ ''.mp4'')"

text \<open>
  Lines 44 to 73, the loop over the drives. \<^verbatim>\<open>create_video\<close> is called with no
  \<^verbatim>\<open>try\<close> around it: an exception it raises leaves the loop and the function.
  (\<^verbatim>\<open>date_str\<close> of line 47 is computed and never used.)
\<close>

fun process_drives :: "env \<Rightarrow> string \<Rightarrow> real \<Rightarrow> string list \<Rightarrow> world \<Rightarrow> exn \<times> world + world" where
  "process_drives e output_dir fps [] w = Inr w"
| "process_drives e output_dir fps (drive_path # rest) w =
     (let drive_name = drive_name_of drive_path;
          w1 = emit [ProcessingDrive drive_name] w;
          rgb_image_folder = path_join (path_join drive_path ''image_02'') ''data''
      in if \<not> isdir e rgb_image_folder then
           process_drives e output_dir fps rest
             (emit [RgbFolderNotFound drive_name, ExpectedAt rgb_image_folder] w1)
         else
           (case create_video e rgb_image_folder (output_video_path_of output_dir drive_path)
                   fps ''png'' w1 of
              Inl x \<Rightarrow> Inl x
            | Inr w2 \<Rightarrow> process_drives e output_dir fps rest w2))"

text \<open>Lines 16 to 75.\<close>

definition process_all_drives :: "env \<Rightarrow> string \<Rightarrow> string \<Rightarrow> real \<Rightarrow> world \<Rightarrow> exn \<times> world + world" where
  "process_all_drives e kitti_test_root output_dir fps w =
     (let w1 = emit [StartingDriveProcessing, SearchingDrivesIn kitti_test_root] w;
          drive_paths = sort (glob e (path_join (path_join kitti_test_root ''*'') ''*_sync''))
      in if drive_paths = [] then Inr (emit [NoDrivesFound] w1)
         else
           (let w2 = emit [FoundDrives (length drive_paths)] w1;
                w3 = os_makedirs output_dir w2;
                w4 = emit [VideosSavedIn output_dir] w3
            in case process_drives e output_dir fps drive_paths w4 of
                 Inl x \<Rightarrow> Inl x
               | Inr w5 \<Rightarrow> Inr (emit [AllDrivesProcessed] w5)))"

subsection \<open>Observations used in the statements\<close>

text \<open>The world a call ends in, and the exception it raised, if any.\<close>

definition final_world :: "exn \<times> world + world \<Rightarrow> world" where
  "final_world r = (case r of Inl (x, w) \<Rightarrow> w | Inr w \<Rightarrow> w)"

definition raised :: "exn \<times> world + world \<Rightarrow> exn option" where
  "raised r = (case r of Inl (x, w) \<Rightarrow> Some x | Inr w \<Rightarrow> None)"

text \<open>The world the frame loop ends in, whichever way it ends.\<close>

definition loop_world :: "exn \<times> world + flow \<times> world \<Rightarrow> world" where
  "loop_world r = (case r of Inl (x, w) \<Rightarrow> w | Inr (fl, w) \<Rightarrow> w)"

text \<open>The five lines \<^verbatim>\<open>create_video\<close> prints first (lines 18 to 22).\<close>

definition banner :: "string \<Rightarrow> string \<Rightarrow> real \<Rightarrow> string \<Rightarrow> message list" where
  "banner image_folder output_video_path fps image_ext =
     [StartingVideoCreation, InputFolder image_folder, OutputVideo output_video_path,
      FrameRate fps, ImageType image_ext]"

text \<open>What the sorting step prints (line 39, or lines 41 and 42).\<close>

definition sort_report :: "string list \<Rightarrow> message list" where
  "sort_report fs =
     (if numeric_keys_ok fs then [FoundAndSorted (length fs)]
      else [SortFallbackWarning, ZeroPaddedHint])"

text \<open>The world when the frame loop is entered: the writer has just been opened.\<close>

definition opened ::
  "string list \<Rightarrow> string \<Rightarrow> string \<Rightarrow> real \<Rightarrow> string \<Rightarrow> ndarray \<Rightarrow> world \<Rightarrow> world" where
  "opened fs image_folder output_video_path fps image_ext first_frame w =
     emit [WritingFrames]
       (video_writer_open output_video_path ''mp4v'' fps (cols first_frame, rows first_frame)
         (emit [VideoDimensions (cols first_frame) (rows first_frame)]
           (emit (sort_report fs) (emit (banner image_folder output_video_path fps image_ext) w))))"

text \<open>The world after the given frames have been written, one after the other.\<close>

definition write_all :: "string \<Rightarrow> ndarray list \<Rightarrow> world \<Rightarrow> world" where
  "write_all path imgs w = foldl (\<lambda>w' frame. video_writer_write path frame w') w imgs"

text \<open>
  The messages \<^verbatim>\<open>process_all_drives\<close> prints outside its loop over the drives:
  lines 25, 26, 34, 37, 41 and 75.
\<close>

fun batch_message :: "message \<Rightarrow> bool" where
  "batch_message StartingDriveProcessing = True"
| "batch_message (SearchingDrivesIn kitti_test_root) = True"
| "batch_message NoDrivesFound = True"
| "batch_message (FoundDrives n) = True"
| "batch_message (VideosSavedIn output_dir) = True"
| "batch_message AllDrivesProcessed = True"
| "batch_message m = False"

text \<open>The second world continues the first with lines of the loop over the drives only.\<close>

definition continues :: "world \<Rightarrow> world \<Rightarrow> bool" where
  "continues w w' = (\<exists>ms. stdout w' = stdout w @ ms \<and> list_all (\<lambda>m. \<not> batch_message m) ms)"

subsection \<open>Example inputs\<close>

definition initial_world :: world where
  "initial_world = \<lparr>stdout = [], calls = [], files = Map.empty\<rparr>"

definition shaped :: "nat \<Rightarrow> nat \<Rightarrow> nat \<Rightarrow> nat list \<Rightarrow> ndarray" where
  "shaped r c ch px = \<lparr>rows = r, cols = c, channels = ch, pixels = px\<rparr>"

text \<open>Two frames of one resolution, listed by the directory in lexical order.\<close>

definition numbered_folder :: env where
  "numbered_folder =
     \<lparr>glob = (\<lambda>pattern. if pattern = ''d/*.png''
                         then [''d/frame10.png'', ''d/frame2.png''] else []),
      imread = (\<lambda>path. if path = ''d/frame2.png'' then Some (shaped 2 3 3 [2])
                        else if path = ''d/frame10.png'' then Some (shaped 2 3 3 [10])
                        else None),
      isdir = (\<lambda>path. False)\<rparr>"

text \<open>Two frames of one height and width; the second has one channel, the first three.\<close>

definition mixed_channels_folder :: env where
  "mixed_channels_folder =
     \<lparr>glob = (\<lambda>pattern. if pattern = ''d/*.png'' then [''d/1.png'', ''d/2.png''] else []),
      imread = (\<lambda>path. if path = ''d/1.png'' then Some (shaped 2 3 3 [1])
                        else if path = ''d/2.png'' then Some (shaped 2 3 1 [2])
                        else None),
      isdir = (\<lambda>path. False)\<rparr>"

text \<open>Five frames; the third has another resolution than the first.\<close>

definition third_of_five_differs :: env where
  "third_of_five_differs =
     \<lparr>glob = (\<lambda>pattern. if pattern = ''d/*.png''
                         then [''d/3.png'', ''d/1.png'', ''d/5.png'', ''d/2.png'', ''d/4.png'']
                         else []),
      imread = (\<lambda>path. if path = ''d/3.png'' then Some (shaped 4 5 3 [3])
                        else if path \<in> set [''d/1.png'', ''d/2.png'', ''d/4.png'', ''d/5.png'']
                        then Some (shaped 2 3 3 [])
                        else None),
      isdir = (\<lambda>path. False)\<rparr>"

text \<open>
  Three frames: the first decodes, the decoder fails on the second, and the third
  decodes to another resolution than the first.
\<close>

definition unreadable_before_mismatch :: env where
  "unreadable_before_mismatch =
     \<lparr>glob = (\<lambda>pattern. if pattern = ''d/*.png''
                         then [''d/1.png'', ''d/2.png'', ''d/3.png''] else []),
      imread = (\<lambda>path. if path = ''d/1.png'' then Some (shaped 2 3 3 [1])
                        else if path = ''d/3.png'' then Some (shaped 4 5 3 [3])
                        else None),
      isdir = (\<lambda>path. False)\<rparr>"

text \<open>Two frames; the decoder fails on the second.\<close>

definition second_unreadable :: env where
  "second_unreadable =
     \<lparr>glob = (\<lambda>pattern. if pattern = ''d/*.png'' then [''d/1.png'', ''d/2.png''] else []),
      imread = (\<lambda>path. if path = ''d/1.png'' then Some (shaped 2 3 3 [1]) else None),
      isdir = (\<lambda>path. False)\<rparr>"

text \<open>
  Two drives with their image folders. The decoder fails on the second frame of drive
  \<open>a\<close>; drive \<open>b\<close> has one readable frame.
\<close>

definition two_drives :: env where
  "two_drives =
     \<lparr>glob = (\<lambda>pattern.
               if pattern = ''r/*/*_sync'' then [''r/d/b_sync'', ''r/d/a_sync'']
               else if pattern = ''r/d/a_sync/image_02/data/*.png''
               then [''r/d/a_sync/image_02/data/0.png'', ''r/d/a_sync/image_02/data/1.png'']
               else if pattern = ''r/d/b_sync/image_02/data/*.png''
               then [''r/d/b_sync/image_02/data/0.png'']
               else []),
      imread = (\<lambda>path. if path = ''r/d/a_sync/image_02/data/0.png'' then Some (shaped 2 3 3 [0])
                        else if path = ''r/d/b_sync/image_02/data/0.png'' then Some (shaped 2 3 3 [7])
                        else None),
      isdir = (\<lambda>path. path \<in> set [''r/d/a_sync/image_02/data'', ''r/d/b_sync/image_02/data''])\<rparr>"

text \<open>
  Three drives: \<open>a\<close> converts, \<open>b\<close> has no image folder, and the second frame of
  \<open>c\<close> has another resolution than its first.
\<close>

definition three_drives :: env where
  "three_drives =
     \<lparr>glob = (\<lambda>pattern.
               if pattern = ''r/*/*_sync'' then [''r/d/a_sync'', ''r/d/b_sync'', ''r/d/c_sync'']
               else if pattern = ''r/d/a_sync/image_02/data/*.png''
               then [''r/d/a_sync/image_02/data/0.png'']
               else if pattern = ''r/d/c_sync/image_02/data/*.png''
               then [''r/d/c_sync/image_02/data/0.png'', ''r/d/c_sync/image_02/data/1.png'']
               else []),
      imread = (\<lambda>path. if path = ''r/d/c_sync/image_02/data/1.png'' then Some (shaped 4 5 3 [])
                        else if path \<in> set [''r/d/a_sync/image_02/data/0.png'',
                                             ''r/d/c_sync/image_02/data/0.png'']
                        then Some (shaped 2 3 3 [])
                        else None),
      isdir = (\<lambda>path. path \<in> set [''r/d/a_sync/image_02/data'', ''r/d/c_sync/image_02/data''])\<rparr>"

text \<open>The same three drives, each with one readable frame: all three convert.\<close>

definition three_good_drives :: env where
  "three_good_drives =
     \<lparr>glob = (\<lambda>pattern.
               if pattern = ''r/*/*_sync'' then [''r/d/a_sync'', ''r/d/b_sync'', ''r/d/c_sync'']
               else if pattern = ''r/d/a_sync/image_02/data/*.png''
               then [''r/d/a_sync/image_02/data/0.png'']
               else if pattern = ''r/d/b_sync/image_02/data/*.png''
               then [''r/d/b_sync/image_02/data/0.png'']
               else if pattern = ''r/d/c_sync/image_02/data/*.png''
               then [''r/d/c_sync/image_02/data/0.png'']
               else []),
      imread = (\<lambda>path. if basename path = ''0.png'' then Some (shaped 2 3 3 []) else None),
      isdir = (\<lambda>path. path \<in> set [''r/d/a_sync/image_02/data'', ''r/d/b_sync/image_02/data'',
                                     ''r/d/c_sync/image_02/data''])\<rparr>"

section \<open>Properties\<close>

subsection \<open>Helpers: the writer, the frame loop and the sort\<close>

lemma write_all_Nil: "write_all path [] w = w"
  by (simp add: write_all_def)

lemma write_all_Cons:
  "write_all path (x # xs) w = write_all path xs (video_writer_write path x w)"
  by (simp add: write_all_def)

lemma write_all_stdout: "stdout (write_all path imgs w) = stdout w"
  by (induction imgs arbitrary: w)
    (simp_all add: write_all_Nil write_all_Cons video_writer_write_def)

lemma write_all_calls: "calls (write_all path imgs w) = calls w @ map WriteFrame imgs"
  by (induction imgs arbitrary: w)
    (simp_all add: write_all_Nil write_all_Cons video_writer_write_def)

lemma write_all_files:
  "files w path = Some v \<Longrightarrow>
   files (write_all path imgs w) path = Some (v\<lparr>frames := frames v @ imgs\<rparr>)"
  by (induction imgs arbitrary: w v)
    (simp_all add: write_all_Nil write_all_Cons video_writer_write_def)

text \<open>
  While the frames decode to the expected height and width the loop only writes: a
  prefix of such frames can be split off.
\<close>

lemma write_frames_prefix:
  "map (imread e) pre = map Some imgs \<Longrightarrow>
   \<forall>i\<in>set imgs. rows i = h \<and> cols i = wd \<Longrightarrow>
   write_frames e out h wd (pre @ rest) w = write_frames e out h wd rest (write_all out imgs w)"
proof (induction pre arbitrary: imgs w)
  case Nil
  then show ?case by (simp add: write_all_Nil)
next
  case (Cons p pre)
  then obtain i js where imgs: "imgs = i # js" and p: "imread e p = Some i"
    and rest: "map (imread e) pre = map Some js"
    by (cases imgs) auto
  from Cons.prems(2) imgs have ok: "rows i = h" "cols i = wd"
    and oks: "\<forall>j\<in>set js. rows j = h \<and> cols j = wd"
    by auto
  show ?case
    using Cons.IH [OF rest oks] p ok by (simp add: imgs write_all_Cons)
qed

lemma mset_sort_image_files: "mset (sort_image_files fs) = mset fs"
  by (simp add: sort_image_files_def)

lemma length_sort_image_files: "length (sort_image_files fs) = length fs"
  by (simp add: sort_image_files_def)

lemma opened_stdout:
  "stdout (opened fs image_folder out fps image_ext ff w) =
     stdout w @ banner image_folder out fps image_ext @ sort_report fs @
       [VideoDimensions (cols ff) (rows ff), WritingFrames]"
  by (simp add: opened_def emit_def video_writer_open_def)

lemma opened_calls:
  "calls (opened fs image_folder out fps image_ext ff w) =
     calls w @ [VideoWriter out ''mp4v'' fps (cols ff, rows ff)]"
  by (simp add: opened_def emit_def video_writer_open_def)

lemma opened_files:
  "files (opened fs image_folder out fps image_ext ff w) out =
     Some \<lparr>codec = ''mp4v'', rate = fps, frame_size = (cols ff, rows ff), frames = [],
           finalized = False\<rparr>"
  by (simp add: opened_def emit_def video_writer_open_def)

text \<open>\<^verbatim>\<open>create_video\<close> up to the loop, when the first sorted frame decodes.\<close>

lemma create_video_opened:
  assumes "glob e (path_join image_folder (''*.'' @ image_ext)) = fs"
    and "sort_image_files fs = first_path # others"
    and "imread e first_path = Some ff"
  shows "create_video e image_folder out fps image_ext w =
     (case write_frames e out (rows ff) (cols ff) (first_path # others)
             (opened fs image_folder out fps image_ext ff w) of
        Inl x \<Rightarrow> Inl x
      | Inr (Returned, w6) \<Rightarrow> Inr w6
      | Inr (Fallthrough, w6) \<Rightarrow>
          Inr (emit [VideoCreationComplete, SuccessfullySaved out]
                (video_writer_release out w6)))"
proof -
  have "fs \<noteq> []"
    using assms(2) length_sort_image_files [of fs] by auto
  then show ?thesis
    using assms by (simp add: create_video_def Let_def opened_def sort_report_def banner_def)
qed

text \<open>... and past a non-empty prefix of frames that all have the first frame's size.\<close>

lemma create_video_prefix:
  assumes "glob e (path_join image_folder (''*.'' @ image_ext)) = fs"
    and "sort_image_files fs = pre @ rest"
    and "pre \<noteq> []"
    and "map (imread e) pre = map Some imgs"
    and "\<forall>i\<in>set imgs. rows i = rows (hd imgs) \<and> cols i = cols (hd imgs)"
  shows "create_video e image_folder out fps image_ext w =
     (case write_frames e out (rows (hd imgs)) (cols (hd imgs)) rest
             (write_all out imgs (opened fs image_folder out fps image_ext (hd imgs) w)) of
        Inl x \<Rightarrow> Inl x
      | Inr (Returned, w6) \<Rightarrow> Inr w6
      | Inr (Fallthrough, w6) \<Rightarrow>
          Inr (emit [VideoCreationComplete, SuccessfullySaved out]
                (video_writer_release out w6)))"
proof -
  from assms(3) obtain first_path others where pre: "pre = first_path # others"
    by (cases pre) auto
  with assms(4) obtain ff more where imgs: "imgs = ff # more"
    and ff: "imread e first_path = Some ff"
    by (cases imgs) auto
  have s: "sort_image_files fs = first_path # (others @ rest)"
    using assms(2) pre by simp
  have "write_frames e out (rows ff) (cols ff) (pre @ rest)
          (opened fs image_folder out fps image_ext ff w) =
        write_frames e out (rows ff) (cols ff) rest
          (write_all out imgs (opened fs image_folder out fps image_ext ff w))"
    using assms(4,5) imgs by (intro write_frames_prefix) simp_all
  then show ?thesis
    using create_video_opened [OF assms(1) s ff, of out fps w] pre imgs by simp
qed

lemma create_video_uniform:
  assumes "glob e (path_join image_folder (''*.'' @ image_ext)) = fs"
    and "fs \<noteq> []"
    and "map (imread e) (sort_image_files fs) = map Some imgs"
    and "\<forall>i\<in>set imgs. rows i = rows (hd imgs) \<and> cols i = cols (hd imgs)"
  shows "create_video e image_folder out fps image_ext w =
     Inr (emit [VideoCreationComplete, SuccessfullySaved out]
           (video_writer_release out
             (write_all out imgs (opened fs image_folder out fps image_ext (hd imgs) w))))"
proof -
  have "sort_image_files fs \<noteq> []"
    using assms(2) length_sort_image_files [of fs] by auto
  moreover have "sort_image_files fs = sort_image_files fs @ []"
    by simp
  ultimately show ?thesis
    using create_video_prefix [OF assms(1) _ _ assms(3,4), of "[]" out fps w] by simp
qed

lemma saved_fields:
  assumes "w' = emit [VideoCreationComplete, SuccessfullySaved out]
           (video_writer_release out
             (write_all out imgs (opened fs image_folder out fps image_ext ff w)))"
  shows "files w' out = Some \<lparr>codec = ''mp4v'', rate = fps, frame_size = (cols ff, rows ff),
                               frames = imgs, finalized = True\<rparr>"
    and "calls w' = calls w @ [VideoWriter out ''mp4v'' fps (cols ff, rows ff)] @
                      map WriteFrame imgs @ [Release]"
    and "stdout w' = stdout w @ banner image_folder out fps image_ext @ sort_report fs @
                      [VideoDimensions (cols ff) (rows ff), WritingFrames,
                       VideoCreationComplete, SuccessfullySaved out]"
proof -
  show "files w' out = Some \<lparr>codec = ''mp4v'', rate = fps, frame_size = (cols ff, rows ff),
                               frames = imgs, finalized = True\<rparr>"
    using write_all_files [OF opened_files, of out imgs fs image_folder fps image_ext ff w]
    by (simp add: assms emit_def video_writer_release_def)
  show "calls w' = calls w @ [VideoWriter out ''mp4v'' fps (cols ff, rows ff)] @
                      map WriteFrame imgs @ [Release]"
    by (simp add: assms emit_def video_writer_release_def write_all_calls opened_calls)
  show "stdout w' = stdout w @ banner image_folder out fps image_ext @ sort_report fs @
                      [VideoDimensions (cols ff) (rows ff), WritingFrames,
                       VideoCreationComplete, SuccessfullySaved out]"
    by (simp add: assms emit_def video_writer_release_def write_all_stdout opened_stdout)
qed

text \<open>The loop on a frame that does not decode, after frames of the expected size.\<close>

lemma create_video_unreadable:
  assumes "glob e (path_join image_folder (''*.'' @ image_ext)) = fs"
    and "sort_image_files fs = pre @ bad_path # post"
    and "pre \<noteq> []"
    and "map (imread e) pre = map Some imgs"
    and "\<forall>i\<in>set imgs. rows i = rows (hd imgs) \<and> cols i = cols (hd imgs)"
    and "imread e bad_path = None"
  shows "create_video e image_folder out fps image_ext w =
     Inl (AttributeError,
          write_all out imgs (opened fs image_folder out fps image_ext (hd imgs) w))"
  using create_video_prefix [OF assms(1-5), of out fps w] assms(6) by simp

text \<open>Evaluations on the example inputs that several statements below use.\<close>

lemma shaped_sel:
  "rows (shaped r c ch px) = r" "cols (shaped r c ch px) = c"
  "channels (shaped r c ch px) = ch"
  by (simp_all add: shaped_def)

lemma path_join_png: "path_join ''d'' ''*.png'' = ''d/*.png''"
  by (simp add: path_join_def)

lemma sort_numbered:
  "sort_image_files [''d/frame10.png'', ''d/frame2.png''] = [''d/frame2.png'', ''d/frame10.png'']"
  by code_simp

lemma sort_one_two: "sort_image_files [''d/1.png'', ''d/2.png''] = [''d/1.png'', ''d/2.png'']"
  by code_simp

lemma sort_five:
  "sort_image_files [''d/3.png'', ''d/1.png'', ''d/5.png'', ''d/2.png'', ''d/4.png''] =
     [''d/1.png'', ''d/2.png''] @ ''d/3.png'' # [''d/4.png'', ''d/5.png'']"
  by code_simp

lemma numeric_numbered: "numeric_keys_ok [''d/frame10.png'', ''d/frame2.png'']"
  by code_simp

lemma numeric_one_two: "numeric_keys_ok [''d/1.png'', ''d/2.png'']"
  by code_simp

lemma numeric_five:
  "numeric_keys_ok [''d/3.png'', ''d/1.png'', ''d/5.png'', ''d/2.png'', ''d/4.png'']"
  by code_simp

subsection \<open>Frames of one resolution\<close>

text \<open>
  Claim C1. Let the folder hold at least one matching file, let every file decode
  (\<open>imgs\<close> are the decoded frames in sorted order) and let all frames have the height
  and width of the first. Then \<^verbatim>\<open>create_video\<close> returns normally. It has opened the
  writer once, with the (width, height) of the first sorted frame; it has written
  every frame exactly once, in sorted order, so the video has as many frames as the
  folder has files; and it has released the writer. The video at the output path is
  complete, and the last line printed reports the saved video.
\<close>

theorem create_video_uniform_frames:
  assumes "glob e (path_join image_folder (''*.'' @ image_ext)) = fs"
    and "fs \<noteq> []"
    and "map (imread e) (sort_image_files fs) = map Some imgs"
    and "\<forall>i\<in>set imgs. rows i = rows (hd imgs) \<and> cols i = cols (hd imgs)"
  shows "\<exists>w'. create_video e image_folder out fps image_ext w = Inr w' \<and>
     imread e (hd (sort_image_files fs)) = Some (hd imgs) \<and>
     files w' out = Some \<lparr>codec = ''mp4v'', rate = fps,
                           frame_size = (cols (hd imgs), rows (hd imgs)),
                           frames = imgs, finalized = True\<rparr> \<and>
     length imgs = length fs \<and>
     calls w' = calls w @ [VideoWriter out ''mp4v'' fps (cols (hd imgs), rows (hd imgs))] @
                  map WriteFrame imgs @ [Release] \<and>
     stdout w' = stdout w @ banner image_folder out fps image_ext @ sort_report fs @
                  [VideoDimensions (cols (hd imgs)) (rows (hd imgs)), WritingFrames,
                   VideoCreationComplete, SuccessfullySaved out]"
proof -
  have len: "length imgs = length fs"
    using arg_cong [OF assms(3), of length] by (simp add: length_sort_image_files)
  with assms(2) have ne: "imgs \<noteq> []" "sort_image_files fs \<noteq> []"
    using length_sort_image_files [of fs] by auto
  have first: "imread e (hd (sort_image_files fs)) = Some (hd imgs)"
    using arg_cong [OF assms(3), of hd] ne by (simp add: hd_map)
  show ?thesis
    using create_video_uniform [OF assms, of out fps w] len first
      saved_fields [OF refl, of out imgs fs image_folder fps image_ext "hd imgs" w]
    by simp
qed

theorem create_video_uniform_frames_witness:
  "\<exists>w'. create_video numbered_folder ''d'' ''o.mp4'' 10 ''png'' initial_world = Inr w' \<and>
     files w' ''o.mp4'' =
       Some \<lparr>codec = ''mp4v'', rate = 10, frame_size = (3, 2),
             frames = [shaped 2 3 3 [2], shaped 2 3 3 [10]], finalized = True\<rparr> \<and>
     calls w' = [VideoWriter ''o.mp4'' ''mp4v'' 10 (3, 2), WriteFrame (shaped 2 3 3 [2]),
                 WriteFrame (shaped 2 3 3 [10]), Release] \<and>
     stdout w' = [StartingVideoCreation, InputFolder ''d'', OutputVideo ''o.mp4'',
                  FrameRate 10, ImageType ''png'', FoundAndSorted 2, VideoDimensions 3 2,
                  WritingFrames, VideoCreationComplete, SuccessfullySaved ''o.mp4'']"
proof -
  have g: "glob numbered_folder (path_join ''d'' (''*.'' @ ''png'')) =
             [''d/frame10.png'', ''d/frame2.png'']"
    by (simp add: numbered_folder_def path_join_png)
  have d: "map (imread numbered_folder)
             (sort_image_files [''d/frame10.png'', ''d/frame2.png'']) =
           map Some [shaped 2 3 3 [2], shaped 2 3 3 [10]]"
    by (simp add: sort_numbered numbered_folder_def)
  have u: "\<forall>i\<in>set [shaped 2 3 3 [2], shaped 2 3 3 [10]].
             rows i = rows (hd [shaped 2 3 3 [2], shaped 2 3 3 [10]]) \<and>
             cols i = cols (hd [shaped 2 3 3 [2], shaped 2 3 3 [10]])"
    by (simp add: shaped_sel)
  show ?thesis
    using create_video_uniform_frames [OF g _ d u, of "''o.mp4''" 10 initial_world]
    by (auto simp add: shaped_sel initial_world_def banner_def sort_report_def numeric_numbered)
qed

subsection \<open>The channel count is not checked\<close>

text \<open>
  Claim C10. The check inside the loop looks at the height and the width of a frame
  only. If every frame decodes with the height and width of the first, then a frame
  \<open>other\<close> whose channel count differs from the first frame's is written like any
  other: the call returns normally, the finished video holds \<open>other\<close>, and nothing
  about a different resolution is printed.
\<close>

theorem create_video_ignores_channels:
  assumes "glob e (path_join image_folder (''*.'' @ image_ext)) = fs"
    and "fs \<noteq> []"
    and "map (imread e) (sort_image_files fs) = map Some imgs"
    and "\<forall>i\<in>set imgs. rows i = rows (hd imgs) \<and> cols i = cols (hd imgs)"
    and "other \<in> set imgs"
    and "channels other \<noteq> channels (hd imgs)"
  shows "\<exists>w' v. create_video e image_folder out fps image_ext w = Inr w' \<and>
     files w' out = Some v \<and> other \<in> set (frames v) \<and> finalized v \<and>
     WriteFrame other \<in> set (calls w') \<and>
     stdout w' = stdout w @ banner image_folder out fps image_ext @ sort_report fs @
                  [VideoDimensions (cols (hd imgs)) (rows (hd imgs)), WritingFrames,
                   VideoCreationComplete, SuccessfullySaved out]"
  using create_video_uniform [OF assms(1-4), of out fps w] assms(5)
    saved_fields [OF refl, of out imgs fs image_folder fps image_ext "hd imgs" w]
  by simp

theorem create_video_ignores_channels_witness:
  "\<exists>w' v. create_video mixed_channels_folder ''d'' ''o.mp4'' 10 ''png'' initial_world = Inr w' \<and>
     files w' ''o.mp4'' = Some v \<and> shaped 2 3 1 [2] \<in> set (frames v) \<and> finalized v \<and>
     WriteFrame (shaped 2 3 1 [2]) \<in> set (calls w') \<and>
     stdout w' = [StartingVideoCreation, InputFolder ''d'', OutputVideo ''o.mp4'',
                  FrameRate 10, ImageType ''png'', FoundAndSorted 2, VideoDimensions 3 2,
                  WritingFrames, VideoCreationComplete, SuccessfullySaved ''o.mp4'']"
proof -
  have g: "glob mixed_channels_folder (path_join ''d'' (''*.'' @ ''png'')) =
             [''d/1.png'', ''d/2.png'']"
    by (simp add: mixed_channels_folder_def path_join_png)
  have d: "map (imread mixed_channels_folder) (sort_image_files [''d/1.png'', ''d/2.png'']) =
           map Some [shaped 2 3 3 [1], shaped 2 3 1 [2]]"
    by (simp add: sort_one_two mixed_channels_folder_def)
  have u: "\<forall>i\<in>set [shaped 2 3 3 [1], shaped 2 3 1 [2]].
             rows i = rows (hd [shaped 2 3 3 [1], shaped 2 3 1 [2]]) \<and>
             cols i = cols (hd [shaped 2 3 3 [1], shaped 2 3 1 [2]])"
    by (simp add: shaped_sel)
  have m: "shaped 2 3 1 [2] \<in> set [shaped 2 3 3 [1], shaped 2 3 1 [2]]"
    by simp
  have c: "channels (shaped 2 3 1 [2]) \<noteq> channels (hd [shaped 2 3 3 [1], shaped 2 3 1 [2]])"
    by (simp add: shaped_sel)
  show ?thesis
    using create_video_ignores_channels [OF g _ d u m c, of "''o.mp4''" 10 initial_world]
    by (auto simp add: shaped_sel initial_world_def banner_def sort_report_def numeric_one_two)
qed

subsection \<open>A frame of another resolution\<close>

text \<open>
  Claim C2 speaks of every frame set in which some frame after the first decodes to
  another resolution than the first. That is too wide: the loop takes the frames in
  order, and a frame before the mismatching one may stop it first. With three frames,
  the first readable, the second not decodable and the third of another resolution,
  the third frame is never looked at: \<^verbatim>\<open>create_video\<close> raises \<^verbatim>\<open>AttributeError\<close> at
  the second frame, after opening the writer and writing the first frame. The writer
  is not released, the file at the output path is not removed and stays there
  unfinalized, and no resolution mismatch is printed.
\<close>

theorem create_video_mismatch_after_unreadable:
  "imread unreadable_before_mismatch ''d/1.png'' = Some (shaped 2 3 3 [1]) \<and>
   imread unreadable_before_mismatch ''d/2.png'' = None \<and>
   imread unreadable_before_mismatch ''d/3.png'' = Some (shaped 4 5 3 [3]) \<and>
   raised (create_video unreadable_before_mismatch ''d'' ''o.mp4'' 10 ''png'' initial_world) =
     Some AttributeError \<and>
   calls (final_world
       (create_video unreadable_before_mismatch ''d'' ''o.mp4'' 10 ''png'' initial_world)) =
     [VideoWriter ''o.mp4'' ''mp4v'' 10 (3, 2), WriteFrame (shaped 2 3 3 [1])] \<and>
   files (final_world
       (create_video unreadable_before_mismatch ''d'' ''o.mp4'' 10 ''png'' initial_world))
       ''o.mp4'' =
     Some \<lparr>codec = ''mp4v'', rate = 10, frame_size = (3, 2), frames = [shaped 2 3 3 [1]],
           finalized = False\<rparr> \<and>
   stdout (final_world
       (create_video unreadable_before_mismatch ''d'' ''o.mp4'' 10 ''png'' initial_world)) =
     [StartingVideoCreation, InputFolder ''d'', OutputVideo ''o.mp4'', FrameRate 10,
      ImageType ''png'', FoundAndSorted 3, VideoDimensions 3 2, WritingFrames]"
  by code_simp

text \<open>
  Claim C2 as amended: the claim for the first frame that fails the check, when every
  frame before it decodes. Let the sorted frames be \<open>pre @ bad_path # post\<close> with
  \<open>pre\<close> not empty, let the frames of \<open>pre\<close> decode (to \<open>imgs\<close>) with the height
  and width of the first, and let \<open>bad_path\<close> decode to a frame whose height or width
  differs: \<open>bad_path\<close> is the first frame that fails the check. Then \<^verbatim>\<open>create_video\<close>
  returns (it raises nothing), and what it did to the file system is exactly: open the
  writer, write the frames of \<open>pre\<close>, release the writer, remove the output file.
  Neither the offending frame nor a later one is written, no file is left at the
  output path, and the last three lines printed name the offending file (by its
  basename) with the expected and the actual width and height.
\<close>

theorem create_video_resolution_mismatch:
  assumes "glob e (path_join image_folder (''*.'' @ image_ext)) = fs"
    and "sort_image_files fs = pre @ bad_path # post"
    and "pre \<noteq> []"
    and "map (imread e) pre = map Some imgs"
    and "\<forall>i\<in>set imgs. rows i = rows (hd imgs) \<and> cols i = cols (hd imgs)"
    and "imread e bad_path = Some bad"
    and "rows bad \<noteq> rows (hd imgs) \<or> cols bad \<noteq> cols (hd imgs)"
  shows "\<exists>w'. create_video e image_folder out fps image_ext w = Inr w' \<and>
     files w' out = None \<and>
     calls w' = calls w @ [VideoWriter out ''mp4v'' fps (cols (hd imgs), rows (hd imgs))] @
                  map WriteFrame imgs @ [Release, Remove out] \<and>
     stdout w' = stdout w @ banner image_folder out fps image_ext @ sort_report fs @
                  [VideoDimensions (cols (hd imgs)) (rows (hd imgs)), WritingFrames,
                   DifferentResolution (basename bad_path),
                   ExpectedButGot (cols (hd imgs)) (rows (hd imgs)) (cols bad) (rows bad),
                   Aborting]"
proof -
  define w5 where
    "w5 = write_all out imgs (opened fs image_folder out fps image_ext (hd imgs) w)"
  have f5: "files w5 out \<noteq> None"
    unfolding w5_def using write_all_files [OF opened_files] by simp
  have c5: "calls w5 = calls w @
      [VideoWriter out ''mp4v'' fps (cols (hd imgs), rows (hd imgs))] @ map WriteFrame imgs"
    unfolding w5_def by (simp add: write_all_calls opened_calls)
  have s5: "stdout w5 = stdout w @ banner image_folder out fps image_ext @ sort_report fs @
      [VideoDimensions (cols (hd imgs)) (rows (hd imgs)), WritingFrames]"
    unfolding w5_def by (simp add: write_all_stdout opened_stdout)
  define w' where "w' = (video_writer_release out
       (emit [DifferentResolution (basename bad_path),
              ExpectedButGot (cols (hd imgs)) (rows (hd imgs)) (cols bad) (rows bad),
              Aborting] w5))
       \<lparr>calls := calls w5 @ [Release, Remove out],
        files := (files (video_writer_release out w5))(out := None)\<rparr>"
  have loop: "write_frames e out (rows (hd imgs)) (cols (hd imgs)) (bad_path # post) w5 =
      Inr (Returned, w')"
    using assms(6,7) f5
    by (auto simp: w'_def Let_def os_remove_def video_writer_release_def emit_def)
  have "create_video e image_folder out fps image_ext w = Inr w'"
    using create_video_prefix [OF assms(1-5), of out fps w] loop by (simp add: w5_def)
  moreover have "files w' out = None" "calls w' = calls w5 @ [Release, Remove out]"
    "stdout w' = stdout w5 @ [DifferentResolution (basename bad_path),
              ExpectedButGot (cols (hd imgs)) (rows (hd imgs)) (cols bad) (rows bad), Aborting]"
    by (simp_all add: w'_def video_writer_release_def emit_def)
  ultimately show ?thesis
    using c5 s5 by simp
qed

theorem create_video_resolution_mismatch_witness:
  "\<exists>w'. create_video third_of_five_differs ''d'' ''o.mp4'' 10 ''png'' initial_world = Inr w' \<and>
     files w' ''o.mp4'' = None \<and>
     calls w' = [VideoWriter ''o.mp4'' ''mp4v'' 10 (3, 2), WriteFrame (shaped 2 3 3 []),
                 WriteFrame (shaped 2 3 3 []), Release, Remove ''o.mp4''] \<and>
     stdout w' = [StartingVideoCreation, InputFolder ''d'', OutputVideo ''o.mp4'',
                  FrameRate 10, ImageType ''png'', FoundAndSorted 5, VideoDimensions 3 2,
                  WritingFrames, DifferentResolution ''3.png'', ExpectedButGot 3 2 5 4,
                  Aborting]"
proof -
  have g: "glob third_of_five_differs (path_join ''d'' (''*.'' @ ''png'')) =
             [''d/3.png'', ''d/1.png'', ''d/5.png'', ''d/2.png'', ''d/4.png'']"
    by (simp add: third_of_five_differs_def path_join_png)
  have n: "[''d/1.png'', ''d/2.png''] \<noteq> []"
    by simp
  have d: "map (imread third_of_five_differs) [''d/1.png'', ''d/2.png''] =
           map Some [shaped 2 3 3 [], shaped 2 3 3 []]"
    by (simp add: third_of_five_differs_def)
  have u: "\<forall>i\<in>set [shaped 2 3 3 [], shaped 2 3 3 []].
             rows i = rows (hd [shaped 2 3 3 [], shaped 2 3 3 []]) \<and>
             cols i = cols (hd [shaped 2 3 3 [], shaped 2 3 3 []])"
    by simp
  have b: "imread third_of_five_differs ''d/3.png'' = Some (shaped 4 5 3 [3])"
    by (simp add: third_of_five_differs_def)
  have m: "rows (shaped 4 5 3 [3]) \<noteq> rows (hd [shaped 2 3 3 [], shaped 2 3 3 []]) \<or>
           cols (shaped 4 5 3 [3]) \<noteq> cols (hd [shaped 2 3 3 [], shaped 2 3 3 []])"
    by (simp add: shaped_sel)
  have bn: "basename ''d/3.png'' = ''3.png''"
    by (simp add: basename_def)
  show ?thesis
    using create_video_resolution_mismatch [OF g sort_five n d u b m, of "''o.mp4''" 10 initial_world]
    by (auto simp add: shaped_sel initial_world_def banner_def sort_report_def numeric_five bn)
qed

subsection \<open>A frame that does not decode\<close>

text \<open>
  Claim C3 asks for a reported failure that names the unreadable frame. The code does
  something else. Let the sorted frames be \<open>pre @ bad_path # post\<close> with \<open>pre\<close>
  not empty, let the frames of \<open>pre\<close> decode with the height and width of the first,
  and let the decoder fail on \<open>bad_path\<close>. Then \<^verbatim>\<open>create_video\<close> raises
  \<^verbatim>\<open>AttributeError\<close> (from \<^verbatim>\<open>frame.shape\<close> on \<^verbatim>\<open>None\<close>), and the last line it
  printed is the one that announces the writing of frames: nothing names the frame.
\<close>

theorem create_video_unreadable_raises:
  assumes "glob e (path_join image_folder (''*.'' @ image_ext)) = fs"
    and "sort_image_files fs = pre @ bad_path # post"
    and "pre \<noteq> []"
    and "map (imread e) pre = map Some imgs"
    and "\<forall>i\<in>set imgs. rows i = rows (hd imgs) \<and> cols i = cols (hd imgs)"
    and "imread e bad_path = None"
  shows "raised (create_video e image_folder out fps image_ext w) = Some AttributeError \<and>
     stdout (final_world (create_video e image_folder out fps image_ext w)) =
       stdout w @ banner image_folder out fps image_ext @ sort_report fs @
         [VideoDimensions (cols (hd imgs)) (rows (hd imgs)), WritingFrames]"
  using create_video_unreadable [OF assms, of out fps w]
  by (simp add: raised_def final_world_def write_all_stdout opened_stdout)

theorem create_video_unreadable_raises_witness:
  "raised (create_video second_unreadable ''d'' ''o.mp4'' 10 ''png'' initial_world) =
     Some AttributeError \<and>
   stdout (final_world (create_video second_unreadable ''d'' ''o.mp4'' 10 ''png'' initial_world)) =
     [StartingVideoCreation, InputFolder ''d'', OutputVideo ''o.mp4'', FrameRate 10,
      ImageType ''png'', FoundAndSorted 2, VideoDimensions 3 2, WritingFrames]"
proof -
  have g: "glob second_unreadable (path_join ''d'' (''*.'' @ ''png'')) =
             [''d/1.png'', ''d/2.png'']"
    by (simp add: second_unreadable_def path_join_png)
  have s: "sort_image_files [''d/1.png'', ''d/2.png''] = [''d/1.png''] @ ''d/2.png'' # []"
    by (simp add: sort_one_two)
  have n: "[''d/1.png''] \<noteq> []"
    by simp
  have d: "map (imread second_unreadable) [''d/1.png''] = map Some [shaped 2 3 3 [1]]"
    by (simp add: second_unreadable_def)
  have u: "\<forall>i\<in>set [shaped 2 3 3 [1]].
             rows i = rows (hd [shaped 2 3 3 [1]]) \<and> cols i = cols (hd [shaped 2 3 3 [1]])"
    by simp
  have b: "imread second_unreadable ''d/2.png'' = None"
    by (simp add: second_unreadable_def)
  show ?thesis
    using create_video_unreadable_raises [OF g s n d u b, of "''o.mp4''" 10 initial_world]
    by (simp add: shaped_sel initial_world_def banner_def sort_report_def numeric_one_two)
qed

text \<open>
  Claim C4 asks that no failure after the writer was opened leaves a file behind. On
  the same inputs as above the exception leaves the function with the writer never
  released and the file never removed: the output path holds a video with the frames
  written so far, not finalized, and the calls made end with the last write.
\<close>

theorem create_video_unreadable_leaves_file:
  assumes "glob e (path_join image_folder (''*.'' @ image_ext)) = fs"
    and "sort_image_files fs = pre @ bad_path # post"
    and "pre \<noteq> []"
    and "map (imread e) pre = map Some imgs"
    and "\<forall>i\<in>set imgs. rows i = rows (hd imgs) \<and> cols i = cols (hd imgs)"
    and "imread e bad_path = None"
  shows "raised (create_video e image_folder out fps image_ext w) \<noteq> None \<and>
     files (final_world (create_video e image_folder out fps image_ext w)) out =
       Some \<lparr>codec = ''mp4v'', rate = fps, frame_size = (cols (hd imgs), rows (hd imgs)),
             frames = imgs, finalized = False\<rparr> \<and>
     calls (final_world (create_video e image_folder out fps image_ext w)) =
       calls w @ [VideoWriter out ''mp4v'' fps (cols (hd imgs), rows (hd imgs))] @
         map WriteFrame imgs"
  using create_video_unreadable [OF assms, of out fps w]
    write_all_files [OF opened_files, of out imgs fs image_folder fps image_ext "hd imgs" w]
  by (simp add: raised_def final_world_def write_all_calls opened_calls)

theorem create_video_unreadable_leaves_file_witness:
  "raised (create_video second_unreadable ''d'' ''o.mp4'' 10 ''png'' initial_world) \<noteq> None \<and>
   files (final_world (create_video second_unreadable ''d'' ''o.mp4'' 10 ''png'' initial_world))
       ''o.mp4'' =
     Some \<lparr>codec = ''mp4v'', rate = 10, frame_size = (3, 2), frames = [shaped 2 3 3 [1]],
           finalized = False\<rparr> \<and>
   calls (final_world (create_video second_unreadable ''d'' ''o.mp4'' 10 ''png'' initial_world)) =
     [VideoWriter ''o.mp4'' ''mp4v'' 10 (3, 2), WriteFrame (shaped 2 3 3 [1])]"
proof -
  have g: "glob second_unreadable (path_join ''d'' (''*.'' @ ''png'')) =
             [''d/1.png'', ''d/2.png'']"
    by (simp add: second_unreadable_def path_join_png)
  have s: "sort_image_files [''d/1.png'', ''d/2.png''] = [''d/1.png''] @ ''d/2.png'' # []"
    by (simp add: sort_one_two)
  have n: "[''d/1.png''] \<noteq> []"
    by simp
  have d: "map (imread second_unreadable) [''d/1.png''] = map Some [shaped 2 3 3 [1]]"
    by (simp add: second_unreadable_def)
  have u: "\<forall>i\<in>set [shaped 2 3 3 [1]].
             rows i = rows (hd [shaped 2 3 3 [1]]) \<and> cols i = cols (hd [shaped 2 3 3 [1]])"
    by simp
  have b: "imread second_unreadable ''d/2.png'' = None"
    by (simp add: second_unreadable_def)
  show ?thesis
    using create_video_unreadable_leaves_file [OF g s n d u b, of "''o.mp4''" 10 initial_world]
    by (simp add: shaped_sel initial_world_def)
qed

subsection \<open>The order of the frames\<close>

lemma re_search_digits_None:
  "re_search_digits s = None \<longleftrightarrow> (\<forall>c\<in>set s. \<not> is_digit c)"
  by (auto simp: re_search_digits_def Let_def dropWhile_eq_Nil_conv)

lemma frame_number_None:
  "frame_number f = None \<longleftrightarrow> (\<forall>c\<in>set (basename f). \<not> is_digit c)"
  by (simp add: frame_number_def re_search_digits_None)

lemma numeric_keys_ok_iff:
  "numeric_keys_ok fs \<longleftrightarrow> (\<forall>f\<in>set fs. \<exists>c\<in>set (basename f). is_digit c)"
  by (simp add: numeric_keys_ok_def list_all_iff frame_number_None)

text \<open>
  The key of a file whose basename has a digit: the basename splits into a part without
  digits, a non-empty run of digits that cannot be extended, and the rest; the key is
  the number the run denotes.
\<close>

lemma frame_number_first_run:
  assumes "\<exists>c\<in>set (basename f). is_digit c"
  shows "\<exists>pre ds rest. basename f = pre @ ds @ rest \<and> (\<forall>c\<in>set pre. \<not> is_digit c) \<and>
           ds \<noteq> [] \<and> (\<forall>c\<in>set ds. is_digit c) \<and> (rest = [] \<or> \<not> is_digit (hd rest)) \<and>
           frame_number f = Some (py_int ds)"
proof -
  define pre where "pre = takeWhile (\<lambda>c. \<not> is_digit c) (basename f)"
  define t where "t = dropWhile (\<lambda>c. \<not> is_digit c) (basename f)"
  define ds where "ds = takeWhile is_digit t"
  define rest where "rest = dropWhile is_digit t"
  have t: "t \<noteq> []"
    using assms by (auto simp: t_def dropWhile_eq_Nil_conv)
  then have "is_digit (hd t)"
    using hd_dropWhile [of "\<lambda>c. \<not> is_digit c" "basename f"] by (simp add: t_def)
  with t have ds: "ds \<noteq> []"
    by (cases t) (auto simp: ds_def)
  have split: "basename f = pre @ ds @ rest"
    by (simp add: pre_def ds_def rest_def t_def)
  have "\<forall>c\<in>set pre. \<not> is_digit c"
    by (auto simp: pre_def dest: set_takeWhileD)
  moreover have "\<forall>c\<in>set ds. is_digit c"
    by (auto simp: ds_def dest: set_takeWhileD)
  moreover have "rest = [] \<or> \<not> is_digit (hd rest)"
    using hd_dropWhile [of is_digit t] by (auto simp: rest_def)
  moreover have "frame_number f = Some (py_int ds)"
    using t by (simp add: frame_number_def re_search_digits_def Let_def ds_def t_def)
  ultimately show ?thesis
    using split ds by blast
qed

text \<open>
  Claim C5. If every basename has a digit, the frames are ordered by the number that
  the first run of digits of the basename denotes: the keys of the sorted list are
  defined and ascending, the sorted list is a permutation of the files found, files
  with the same number keep the order in which they were found (the sort is stable),
  and the key of each file is the value of the first maximal run of digits in its
  basename.
\<close>

theorem sort_image_files_numeric:
  assumes "\<forall>f\<in>set fs. \<exists>c\<in>set (basename f). is_digit c"
  shows "(\<exists>ks. map frame_number (sort_image_files fs) = map Some ks \<and> sorted ks) \<and>
         mset (sort_image_files fs) = mset fs \<and>
         (\<forall>k. filter (\<lambda>f. frame_number f = Some k) (sort_image_files fs) =
              filter (\<lambda>f. frame_number f = Some k) fs) \<and>
         (\<forall>f\<in>set fs. \<exists>pre ds rest.
            basename f = pre @ ds @ rest \<and> (\<forall>c\<in>set pre. \<not> is_digit c) \<and>
            ds \<noteq> [] \<and> (\<forall>c\<in>set ds. is_digit c) \<and>
            (rest = [] \<or> \<not> is_digit (hd rest)) \<and> frame_number f = Some (py_int ds))"
proof -
  let ?key = "\<lambda>f. the (frame_number f)"
  have ok: "numeric_keys_ok fs"
    using assms by (simp add: numeric_keys_ok_iff)
  then have s: "sort_image_files fs = sort_key ?key fs"
    by (simp add: sort_image_files_def)
  have some: "frame_number f = Some (?key f)" if "f \<in> set fs" for f
    using ok that by (auto simp: numeric_keys_ok_def list_all_iff)
  have "map frame_number (sort_key ?key fs) = map Some (map ?key (sort_key ?key fs))"
    using some by simp
  moreover have "sorted (map ?key (sort_key ?key fs))"
    by (rule sorted_sort_key)
  ultimately have first:
    "\<exists>ks. map frame_number (sort_image_files fs) = map Some ks \<and> sorted ks"
    unfolding s by blast
  have stable: "filter (\<lambda>f. frame_number f = Some k) (sort_image_files fs) =
              filter (\<lambda>f. frame_number f = Some k) fs" for k
  proof -
    have "filter (\<lambda>f. frame_number f = Some k) xs = filter (\<lambda>f. ?key f = k) xs"
      if "set xs \<subseteq> set fs" for xs
      using that some by (intro filter_cong) auto
    from this [of fs] this [of "sort_key ?key fs"] show ?thesis
      unfolding s by (simp add: sort_key_stable)
  qed
  have keys: "\<forall>f\<in>set fs. \<exists>pre ds rest.
            basename f = pre @ ds @ rest \<and> (\<forall>c\<in>set pre. \<not> is_digit c) \<and>
            ds \<noteq> [] \<and> (\<forall>c\<in>set ds. is_digit c) \<and>
            (rest = [] \<or> \<not> is_digit (hd rest)) \<and> frame_number f = Some (py_int ds)"
    using assms frame_number_first_run by blast
  from first stable keys show ?thesis
    by (simp only: mset_sort_image_files simp_thms)
qed

text \<open>
  The witness is the example of the claim: \<^verbatim>\<open>frame2.png\<close> comes before
  \<^verbatim>\<open>frame10.png\<close>, against the lexical order of the two names.
\<close>

theorem sort_image_files_numeric_witness:
  "sort_image_files [''d/frame10.png'', ''d/frame2.png''] =
     [''d/frame2.png'', ''d/frame10.png''] \<and>
   map frame_number [''d/frame2.png'', ''d/frame10.png''] = [Some 2, Some 10] \<and>
   ''d/frame10.png'' < ''d/frame2.png'' \<and>
   (\<exists>ks. map frame_number (sort_image_files [''d/frame10.png'', ''d/frame2.png'']) =
           map Some ks \<and> sorted ks)"
proof -
  have h: "\<forall>f\<in>set [''d/frame10.png'', ''d/frame2.png'']. \<exists>c\<in>set (basename f). is_digit c"
    by (simp add: basename_def is_digit_def)
  have k: "map frame_number [''d/frame2.png'', ''d/frame10.png''] = [Some 2, Some 10]"
    by code_simp
  have l: "''d/frame10.png'' < ''d/frame2.png''"
    by simp
  from sort_image_files_numeric [OF h]
  have "\<exists>ks. map frame_number (sort_image_files [''d/frame10.png'', ''d/frame2.png'']) =
           map Some ks \<and> sorted ks"
    by (rule conjunct1)
  with sort_numbered k l show ?thesis
    by (simp only: simp_thms)
qed

text \<open>
  Claim C6. If some basename has no digit, the numeric sort is given up for the whole
  set: the result is the list of paths in plain string order, also for the files that
  do have digits.
\<close>

theorem sort_image_files_lexical:
  assumes "\<exists>f\<in>set fs. \<forall>c\<in>set (basename f). \<not> is_digit c"
  shows "sort_image_files fs = sort fs \<and> sorted (sort_image_files fs) \<and>
         mset (sort_image_files fs) = mset fs"
proof -
  have "\<not> numeric_keys_ok fs"
    using assms by (auto simp: numeric_keys_ok_iff)
  then show ?thesis
    by (simp add: sort_image_files_def)
qed

text \<open>
  In the witness \<^verbatim>\<open>a10.png\<close> comes before \<^verbatim>\<open>a2.png\<close>: the two numbered files are
  in string order too, because \<^verbatim>\<open>b.png\<close> has no digit.
\<close>

theorem sort_image_files_lexical_witness:
  "sort_image_files [''d/b.png'', ''d/a2.png'', ''d/a10.png''] =
     [''d/a10.png'', ''d/a2.png'', ''d/b.png''] \<and>
   sort_image_files [''d/b.png'', ''d/a2.png'', ''d/a10.png''] =
     sort [''d/b.png'', ''d/a2.png'', ''d/a10.png''] \<and>
   sort_image_files [''d/a2.png'', ''d/a10.png''] = [''d/a2.png'', ''d/a10.png'']"
proof -
  have h: "\<exists>f\<in>set [''d/b.png'', ''d/a2.png'', ''d/a10.png'']. \<forall>c\<in>set (basename f). \<not> is_digit c"
    by (simp add: basename_def is_digit_def)
  have v: "sort [''d/b.png'', ''d/a2.png'', ''d/a10.png''] =
             [''d/a10.png'', ''d/a2.png'', ''d/b.png'']"
    by code_simp
  have n: "sort_image_files [''d/a2.png'', ''d/a10.png''] = [''d/a2.png'', ''d/a10.png'']"
    by code_simp
  show ?thesis
    using sort_image_files_lexical [OF h] v n by simp
qed

subsection \<open>What is printed only grows\<close>

lemma continues_refl: "continues w w"
  by (simp add: continues_def)

lemma continues_trans: "continues a b \<Longrightarrow> continues b c \<Longrightarrow> continues a c"
  by (auto simp: continues_def)

lemma continues_same: "stdout w' = stdout w \<Longrightarrow> continues w w'"
  by (simp add: continues_def)

lemma continues_emit: "list_all (\<lambda>m. \<not> batch_message m) ms \<Longrightarrow> continues w (emit ms w)"
  by (simp add: continues_def emit_def)

lemma write_frames_continues: "continues w (loop_world (write_frames e out h wd ps w))"
proof (induction ps arbitrary: w)
  case Nil
  show ?case by (simp add: loop_world_def continues_refl)
next
  case (Cons p ps)
  show ?case
  proof (cases "imread e p")
    case None
    then show ?thesis by (simp add: loop_world_def continues_refl)
  next
    case (Some frame)
    show ?thesis
    proof (cases "rows frame \<noteq> h \<or> cols frame \<noteq> wd")
      case True
      then show ?thesis
        using Some
        by (auto simp: loop_world_def Let_def os_remove_def video_writer_release_def emit_def
            continues_def)
    next
      case False
      have "continues w (video_writer_write out frame w)"
        by (rule continues_same) (simp add: video_writer_write_def)
      then show ?thesis
        using Some False Cons.IH [of "video_writer_write out frame w"]
        by (auto intro: continues_trans)
    qed
  qed
qed

lemma create_video_continues:
  "continues w (final_world (create_video e image_folder out fps image_ext w))"
proof -
  define fs where "fs = glob e (path_join image_folder (''*.'' @ image_ext))"
  have g: "glob e (path_join image_folder (''*.'' @ image_ext)) = fs"
    by (simp add: fs_def)
  show ?thesis
  proof (cases "fs = []")
    case True
    then show ?thesis
      using g by (simp add: create_video_def Let_def final_world_def continues_def emit_def)
  next
    case False
    then obtain first_path others where s: "sort_image_files fs = first_path # others"
      using length_sort_image_files [of fs] by (cases "sort_image_files fs") auto
    show ?thesis
    proof (cases "imread e first_path")
      case None
      then show ?thesis
        using False s g
        by (simp add: create_video_def Let_def final_world_def continues_def emit_def)
    next
      case (Some ff)
      define w5 where "w5 = opened fs image_folder out fps image_ext ff w"
      define r where "r = write_frames e out (rows ff) (cols ff) (first_path # others) w5"
      have c5: "continues w w5"
        by (simp add: continues_def w5_def opened_stdout banner_def sort_report_def)
      have cr: "continues w5 (loop_world r)"
        unfolding r_def by (rule write_frames_continues)
      have cv: "create_video e image_folder out fps image_ext w =
        (case r of
           Inl x \<Rightarrow> Inl x
         | Inr (Returned, w6) \<Rightarrow> Inr w6
         | Inr (Fallthrough, w6) \<Rightarrow>
            Inr (emit [VideoCreationComplete, SuccessfullySaved out]
                  (video_writer_release out w6)))"
        unfolding r_def w5_def using create_video_opened [OF g s Some] .
      have "continues (loop_world r) (final_world (create_video e image_folder out fps image_ext w))"
        unfolding cv
        by (auto simp: loop_world_def final_world_def continues_def emit_def
            video_writer_release_def split: sum.splits flow.splits)
      with c5 cr show ?thesis
        by (blast intro: continues_trans)
    qed
  qed
qed

lemma process_drives_continues:
  "continues w (final_world (process_drives e output_dir fps drive_paths w))"
proof (induction drive_paths arbitrary: w)
  case Nil
  show ?case by (simp add: final_world_def continues_refl)
next
  case (Cons drive_path rest)
  define w1 where "w1 = emit [ProcessingDrive (drive_name_of drive_path)] w"
  define folder where "folder = path_join (path_join drive_path ''image_02'') ''data''"
  have c1: "continues w w1"
    unfolding w1_def by (rule continues_emit) simp
  show ?case
  proof (cases "isdir e folder")
    case False
    define w2 where
      "w2 = emit [RgbFolderNotFound (drive_name_of drive_path), ExpectedAt folder] w1"
    have "continues w1 w2"
      unfolding w2_def by (rule continues_emit) simp
    moreover have "process_drives e output_dir fps (drive_path # rest) w =
        process_drives e output_dir fps rest w2"
      using False by (simp add: Let_def w2_def w1_def folder_def)
    ultimately show ?thesis
      using c1 Cons.IH [of w2] by (auto intro: continues_trans)
  next
    case True
    define r where
      "r = create_video e folder (output_video_path_of output_dir drive_path) fps ''png'' w1"
    have cr: "continues w1 (final_world r)"
      unfolding r_def by (rule create_video_continues)
    have step: "process_drives e output_dir fps (drive_path # rest) w =
        (case r of Inl x \<Rightarrow> Inl x | Inr w2 \<Rightarrow> process_drives e output_dir fps rest w2)"
      using True by (simp add: Let_def r_def w1_def folder_def)
    show ?thesis
    proof (cases r)
      case (Inl x)
      then show ?thesis
        using c1 cr step by (auto simp: final_world_def intro: continues_trans)
    next
      case (Inr w2)
      then show ?thesis
        using c1 cr step Cons.IH [of w2] by (auto simp: final_world_def intro: continues_trans)
    qed
  qed
qed

subsection \<open>The name of a drive and the path of its video\<close>

lemma prefix_sync_shorter:
  assumes "prefix ''_sync'' (c # cs @ ''_sync'')"
  shows "sublist ''_sync'' (c # cs @ ''_syn'')"
proof -
  have ne: "''_sync'' \<noteq> (c # cs @ ''_syn'') @ ''c''"
  proof
    assume "''_sync'' = (c # cs @ ''_syn'') @ ''c''"
    then have "length ''_sync'' = length ((c # cs @ ''_syn'') @ ''c'')"
      by (rule arg_cong)
    then show False by simp
  qed
  have "(c # cs @ ''_syn'') @ ''c'' = c # cs @ ''_sync''"
    by simp
  with assms have "prefix ''_sync'' ((c # cs @ ''_syn'') @ ''c'')"
    by (simp only:)
  with ne have "prefix ''_sync'' (c # cs @ ''_syn'')"
    unfolding prefix_snoc by blast
  then show ?thesis
    by (rule prefix_imp_sublist)
qed

text \<open>
  When \<^verbatim>\<open>_sync\<close> occurs in a name only as its ending, replacing every occurrence
  removes just the ending.
\<close>

lemma py_replace_sync_suffix:
  "\<not> sublist ''_sync'' (stem @ ''_syn'') \<Longrightarrow>
   py_replace ''_sync'' [] (stem @ ''_sync'') = stem"
proof (induction stem)
  case Nil
  show ?case
    by (simp add: py_replace.simps [of _ _ "''_sync''"] py_replace.simps [of _ _ "[]"])
next
  case (Cons c cs)
  have np: "\<not> prefix ''_sync'' (c # cs @ ''_sync'')"
    using Cons.prems prefix_sync_shorter by auto
  have "\<not> sublist ''_sync'' (cs @ ''_syn'')"
    using Cons.prems by (auto simp: sublist_Cons_right)
  then have "py_replace ''_sync'' [] (cs @ ''_sync'') = cs"
    by (rule Cons.IH)
  moreover have "py_replace ''_sync'' [] ((c # cs) @ ''_sync'') =
      c # py_replace ''_sync'' [] (cs @ ''_sync'')"
    by (subst py_replace.simps) (simp only: append_Cons list.simps list.sel np if_False)
  ultimately show ?case
    by (simp only:)
qed

lemma basename_no_slash: "CHR ''/'' \<notin> set (basename p)"
  by (auto simp: basename_def dest: set_takeWhileD)

text \<open>The first line the loop prints for a drive carries the name derived at line 48.\<close>

lemma process_drives_first_line:
  "\<exists>ms. stdout (final_world (process_drives e output_dir fps (drive_path # rest) w)) =
         stdout w @ ProcessingDrive (drive_name_of drive_path) # ms"
proof -
  define w1 where "w1 = emit [ProcessingDrive (drive_name_of drive_path)] w"
  define folder where "folder = path_join (path_join drive_path ''image_02'') ''data''"
  have "continues w1 (final_world (process_drives e output_dir fps (drive_path # rest) w))"
  proof (cases "isdir e folder")
    case False
    define w2 where
      "w2 = emit [RgbFolderNotFound (drive_name_of drive_path), ExpectedAt folder] w1"
    have "continues w1 w2"
      unfolding w2_def by (rule continues_emit) simp
    moreover have "process_drives e output_dir fps (drive_path # rest) w =
        process_drives e output_dir fps rest w2"
      using False by (simp add: Let_def w2_def w1_def folder_def)
    ultimately show ?thesis
      using process_drives_continues [of w2 e output_dir fps rest]
      by (auto intro: continues_trans)
  next
    case True
    define r where
      "r = create_video e folder (output_video_path_of output_dir drive_path) fps ''png'' w1"
    have cr: "continues w1 (final_world r)"
      unfolding r_def by (rule create_video_continues)
    have step: "process_drives e output_dir fps (drive_path # rest) w =
        (case r of Inl x \<Rightarrow> Inl x | Inr w2 \<Rightarrow> process_drives e output_dir fps rest w2)"
      using True by (simp add: Let_def r_def w1_def folder_def)
    show ?thesis
    proof (cases r)
      case (Inl x)
      then show ?thesis
        using cr step by (auto simp: final_world_def)
    next
      case (Inr w2)
      then show ?thesis
        using cr step process_drives_continues [of w2 e output_dir fps rest]
        by (auto simp: final_world_def intro: continues_trans)
    qed
  qed
  then show ?thesis
    by (auto simp: continues_def w1_def emit_def)
qed

text \<open>
  Claim C9 says that the drive name is the basename with the trailing \<^verbatim>\<open>_sync\<close>
  removed and nothing else changed. The code calls \<^verbatim>\<open>replace('_sync', '')\<close>, which
  removes every occurrence: for the directory \<^verbatim>\<open>a_sync_b_sync\<close> the name is
  \<^verbatim>\<open>a_b\<close>, not \<^verbatim>\<open>a_sync_b\<close>, and the video goes to \<^verbatim>\<open>out/a_b.mp4\<close>.
\<close>

theorem drive_name_inner_sync_removed:
  "basename ''r/d/a_sync_b_sync'' = ''a_sync_b'' @ ''_sync'' \<and>
   drive_name_of ''r/d/a_sync_b_sync'' = ''a_b'' \<and>
   drive_name_of ''r/d/a_sync_b_sync'' \<noteq> ''a_sync_b'' \<and>
   output_video_path_of ''out'' ''r/d/a_sync_b_sync'' = ''out/a_b.mp4''"
  by code_simp

text \<open>
  Claim C9 as amended. Let the basename of the drive directory be \<open>stem @ ''_sync''\<close>
  and let \<^verbatim>\<open>_sync\<close> occur nowhere else in it. Then the drive name is \<open>stem\<close>: it is
  what the loop prints first for the drive, and the video path is
  \<^verbatim>\<open>os.path.join(output_dir, stem + '.mp4')\<close>, which is the output directory, a slash
  and the file name when the directory is not empty and has no trailing slash.
\<close>

theorem drive_name_strips_sync:
  assumes "basename drive_path = stem @ ''_sync''"
    and "\<not> sublist ''_sync'' (stem @ ''_syn'')"
  shows "drive_name_of drive_path = stem \<and>
     output_video_path_of output_dir drive_path = path_join output_dir (stem @ ''.mp4'') \<and>
     (output_dir \<noteq> [] \<and> last output_dir \<noteq> CHR ''/'' \<longrightarrow>
        output_video_path_of output_dir drive_path = output_dir @ ''/'' @ stem @ ''.mp4'') \<and>
     (\<exists>ms. stdout (final_world (process_drives e output_dir fps (drive_path # rest) w)) =
            stdout w @ ProcessingDrive stem # ms)"
proof -
  have name: "drive_name_of drive_path = stem"
    using assms by (simp add: drive_name_of_def py_replace_sync_suffix)
  have "CHR ''/'' \<notin> set (stem @ ''_sync'')"
    using basename_no_slash [of drive_path] assms(1) by simp
  then have "hd (stem @ ''.mp4'') \<noteq> CHR ''/''"
    by (cases stem) auto
  then have "output_dir \<noteq> [] \<and> last output_dir \<noteq> CHR ''/'' \<longrightarrow>
      path_join output_dir (stem @ ''.mp4'') = output_dir @ ''/'' @ stem @ ''.mp4''"
    by (simp add: path_join_def)
  then show ?thesis
    using name process_drives_first_line [of e output_dir fps drive_path rest w]
    by (simp add: output_video_path_of_def)
qed

theorem drive_name_strips_sync_witness:
  "drive_name_of ''r/2011_09_26/2011_09_26_drive_0002_sync'' = ''2011_09_26_drive_0002'' \<and>
   output_video_path_of ''out'' ''r/2011_09_26/2011_09_26_drive_0002_sync'' =
     ''out/2011_09_26_drive_0002.mp4'' \<and>
   (\<exists>ms. stdout (final_world (process_drives two_drives ''out'' 10
            [''r/2011_09_26/2011_09_26_drive_0002_sync''] initial_world)) =
          ProcessingDrive ''2011_09_26_drive_0002'' # ms)"
proof -
  have b: "basename ''r/2011_09_26/2011_09_26_drive_0002_sync'' =
             ''2011_09_26_drive_0002'' @ ''_sync''"
    by code_simp
  have n: "\<not> sublist ''_sync'' (''2011_09_26_drive_0002'' @ ''_syn'')"
    by code_simp
  have p: "path_join ''out'' (''2011_09_26_drive_0002'' @ ''.mp4'') =
             ''out/2011_09_26_drive_0002.mp4''"
    by code_simp
  show ?thesis
    using drive_name_strips_sync [OF b n, of "''out''" two_drives 10 "[]" initial_world] p
    by (simp add: initial_world_def del: process_drives.simps)
qed

subsection \<open>The batch\<close>

text \<open>
  Claim C7 says that no conversion failure of one drive stops the batch. The loop
  calls \<^verbatim>\<open>create_video\<close> with no handler around it, so the \<^verbatim>\<open>AttributeError\<close> of
  an unreadable frame leaves \<^verbatim>\<open>process_all_drives\<close> as well. With two drives, the
  second frame of drive \<open>a\<close> unreadable and drive \<open>b\<close> in order, the batch ends
  inside drive \<open>a\<close>: drive \<open>b\<close> is never announced, no video of it exists, and
  the truncated video of \<open>a\<close> stays on disk.
\<close>

theorem process_all_drives_stops_at_unreadable_frame:
  "raised (process_all_drives two_drives ''r'' ''out'' 10 initial_world) = Some AttributeError \<and>
   stdout (final_world (process_all_drives two_drives ''r'' ''out'' 10 initial_world)) =
     [StartingDriveProcessing, SearchingDrivesIn ''r'', FoundDrives 2, VideosSavedIn ''out'',
      ProcessingDrive ''a'', StartingVideoCreation, InputFolder ''r/d/a_sync/image_02/data'',
      OutputVideo ''out/a.mp4'', FrameRate 10, ImageType ''png'', FoundAndSorted 2,
      VideoDimensions 3 2, WritingFrames] \<and>
   calls (final_world (process_all_drives two_drives ''r'' ''out'' 10 initial_world)) =
     [Makedirs ''out'', VideoWriter ''out/a.mp4'' ''mp4v'' 10 (3, 2),
      WriteFrame (shaped 2 3 3 [0])] \<and>
   files (final_world (process_all_drives two_drives ''r'' ''out'' 10 initial_world))
     ''out/b.mp4'' = None \<and>
   files (final_world (process_all_drives two_drives ''r'' ''out'' 10 initial_world))
     ''out/a.mp4'' =
     Some \<lparr>codec = ''mp4v'', rate = 10, frame_size = (3, 2), frames = [shaped 2 3 3 [0]],
           finalized = False\<rparr>"
  by code_simp

text \<open>
  Claim C8 says that the batch ends with a summary: the number of drives, the numbers
  of successes, skips and failures, and the failures with their reasons. The code
  keeps no such counts. In a batch of three drives of which one converts, one is
  skipped and one is aborted for a resolution mismatch, the function returns and has
  printed the lines below: the number of drives before the first drive, the messages
  of each drive, and one fixed closing line. The lines it prints outside the loop are
  the same as in a batch whose three drives all convert.
\<close>

theorem process_all_drives_prints_no_summary:
  "raised (process_all_drives three_drives ''r'' ''out'' 10 initial_world) = None \<and>
   stdout (final_world (process_all_drives three_drives ''r'' ''out'' 10 initial_world)) =
     [StartingDriveProcessing, SearchingDrivesIn ''r'', FoundDrives 3, VideosSavedIn ''out'',
      ProcessingDrive ''a'', StartingVideoCreation, InputFolder ''r/d/a_sync/image_02/data'',
      OutputVideo ''out/a.mp4'', FrameRate 10, ImageType ''png'', FoundAndSorted 1,
      VideoDimensions 3 2, WritingFrames, VideoCreationComplete,
      SuccessfullySaved ''out/a.mp4'',
      ProcessingDrive ''b'', RgbFolderNotFound ''b'', ExpectedAt ''r/d/b_sync/image_02/data'',
      ProcessingDrive ''c'', StartingVideoCreation, InputFolder ''r/d/c_sync/image_02/data'',
      OutputVideo ''out/c.mp4'', FrameRate 10, ImageType ''png'', FoundAndSorted 2,
      VideoDimensions 3 2, WritingFrames, DifferentResolution ''1.png'',
      ExpectedButGot 3 2 5 4, Aborting,
      AllDrivesProcessed] \<and>
   filter batch_message
     (stdout (final_world (process_all_drives three_drives ''r'' ''out'' 10 initial_world))) =
   filter batch_message
     (stdout (final_world (process_all_drives three_good_drives ''r'' ''out'' 10 initial_world))) \<and>
   calls (final_world (process_all_drives three_good_drives ''r'' ''out'' 10 initial_world)) =
     [Makedirs ''out'',
      VideoWriter ''out/a.mp4'' ''mp4v'' 10 (3, 2), WriteFrame (shaped 2 3 3 []), Release,
      VideoWriter ''out/b.mp4'' ''mp4v'' 10 (3, 2), WriteFrame (shaped 2 3 3 []), Release,
      VideoWriter ''out/c.mp4'' ''mp4v'' 10 (3, 2), WriteFrame (shaped 2 3 3 []), Release]"
  by code_simp

text \<open>
  Claim C8 as amended. When the drive list is not empty and the batch returns, what
  \<^verbatim>\<open>process_all_drives\<close> has printed is: two opening lines, the number of drives
  found, the output directory, then lines of the drives' own processing, then the one
  closing line. None of the lines in between is a line of the batch itself.
\<close>

theorem process_all_drives_report:
  assumes "process_all_drives e kitti_test_root output_dir fps w = Inr w'"
    and "glob e (path_join (path_join kitti_test_root ''*'') ''*_sync'') = drive_paths"
    and "drive_paths \<noteq> []"
  shows "\<exists>body. stdout w' = stdout w @
           [StartingDriveProcessing, SearchingDrivesIn kitti_test_root,
            FoundDrives (length drive_paths), VideosSavedIn output_dir] @
           body @ [AllDrivesProcessed] \<and>
         list_all (\<lambda>m. \<not> batch_message m) body"
proof -
  define w4 where "w4 = emit [VideosSavedIn output_dir] (os_makedirs output_dir
      (emit [FoundDrives (length drive_paths)]
        (emit [StartingDriveProcessing, SearchingDrivesIn kitti_test_root] w)))"
  define r where "r = process_drives e output_dir fps (sort drive_paths) w4"
  have ne: "sort drive_paths \<noteq> []"
    using assms(3) by (metis length_sort length_0_conv)
  have run: "process_all_drives e kitti_test_root output_dir fps w =
      (case r of Inl x \<Rightarrow> Inl x | Inr w5 \<Rightarrow> Inr (emit [AllDrivesProcessed] w5))"
    using assms(2) ne by (simp add: process_all_drives_def Let_def r_def w4_def)
  with assms(1) obtain w5 where r: "r = Inr w5" and w': "w' = emit [AllDrivesProcessed] w5"
    by (cases r) auto
  have "continues w4 (final_world r)"
    unfolding r_def by (rule process_drives_continues)
  then obtain body where "stdout w5 = stdout w4 @ body"
    and "list_all (\<lambda>m. \<not> batch_message m) body"
    using r by (auto simp: continues_def final_world_def)
  moreover have "stdout w4 = stdout w @
      [StartingDriveProcessing, SearchingDrivesIn kitti_test_root,
       FoundDrives (length drive_paths), VideosSavedIn output_dir]"
    by (simp add: w4_def emit_def os_makedirs_def)
  ultimately show ?thesis
    using w' by (simp add: emit_def)
qed

theorem process_all_drives_report_witness:
  "\<exists>w' body. process_all_drives three_drives ''r'' ''out'' 10 initial_world = Inr w' \<and>
     stdout w' = [StartingDriveProcessing, SearchingDrivesIn ''r'', FoundDrives 3,
                  VideosSavedIn ''out''] @ body @ [AllDrivesProcessed] \<and>
     list_all (\<lambda>m. \<not> batch_message m) body"
proof -
  have "raised (process_all_drives three_drives ''r'' ''out'' 10 initial_world) = None"
    by code_simp
  then obtain w' where run: "process_all_drives three_drives ''r'' ''out'' 10 initial_world = Inr w'"
    by (auto simp: raised_def split: sum.splits)
  have g: "glob three_drives (path_join (path_join ''r'' ''*'') ''*_sync'') =
             [''r/d/a_sync'', ''r/d/b_sync'', ''r/d/c_sync'']"
    by (simp add: three_drives_def path_join_def)
  have n: "[''r/d/a_sync'', ''r/d/b_sync'', ''r/d/c_sync''] \<noteq> []"
    by simp
  show ?thesis
    using process_all_drives_report [OF run g n] run by (auto simp: initial_world_def)
qed

end
